theory Spec2Isabelle
  imports Main "HOL-Library.Word"
begin

section \<open>Snapshot storage engine: \<^verbatim>\<open>SnapshotStorage\<close> of packages/core/src/utils.ts\<close>

text \<open>
  The development embeds the class \<^verbatim>\<open>SnapshotStorage\<close>: the pattern filter
  (\<^verbatim>\<open>matchesPattern\<close>, \<^verbatim>\<open>shouldIncludeFile\<close>), the directory scan
  (\<^verbatim>\<open>addFilesToZip\<close>), the metadata index (\<^verbatim>\<open>listSnapshots\<close>,
  \<^verbatim>\<open>updateMetadata\<close>, \<^verbatim>\<open>saveMetadata\<close>) and the public operations
  \<^verbatim>\<open>saveSnapshot\<close>, \<^verbatim>\<open>restoreSnapshot\<close> and \<^verbatim>\<open>deleteSnapshot\<close>.

  Strings are lists of 8-bit characters, file contents are lists of bytes, and paths use
  the POSIX separator. Every exception of the source is a value of type \<open>error\<close>.
\<close>

subsection \<open>Errors and basic types\<close>

datatype error =
    UnsupportedPattern  \<comment> \<open>\<^verbatim>\<open>new RegExp\<close> on a source outside the fragment modelled below\<close>
  | IOError             \<comment> \<open>a rejected \<^verbatim>\<open>fs\<close> promise (\<^verbatim>\<open>readdir\<close>, \<^verbatim>\<open>writeFile\<close>)\<close>
  | NotFoundError       \<comment> \<open>\<^verbatim>\<open>new AdmZip(zipPath)\<close> on a path with no file\<close>

type_synonym bytes = "8 word list"

subsection \<open>\<^verbatim>\<open>matchesPattern\<close>: a glob turned into an unanchored regular expression\<close>

text \<open>
  \<^verbatim>\<open>pattern.replace(/\*/g, '.*')\<close>: every star becomes the two characters dot, star.
\<close>

fun replaceStar :: "string \<Rightarrow> string" where
  "replaceStar [] = []"
| "replaceStar (c # cs) =
     (if c = CHR ''*'' then CHR ''.'' # CHR ''*'' # replaceStar cs else c # replaceStar cs)"

text \<open>
  \<^verbatim>\<open>.replace(/\?/g, '.')\<close>: every question mark becomes a dot.
\<close>

fun replaceQuestion :: "string \<Rightarrow> string" where
  "replaceQuestion [] = []"
| "replaceQuestion (c # cs) =
     (if c = CHR ''?'' then CHR ''.'' # replaceQuestion cs else c # replaceQuestion cs)"

text \<open>
  The fragment of regular-expression sources that is modelled: a sequence of atoms, an atom
  being an ordinary character or the dot, each optionally followed by one star. The other
  syntax characters of the regular-expression grammar (\<^verbatim>\<open>^ $ \ + ? ( ) [ ] { } |\<close>, and a
  star with nothing to repeat) leave the fragment: on them the source either throws a
  \<^verbatim>\<open>SyntaxError\<close> or applies an operator that is not modelled, and the model
  answers \<open>UnsupportedPattern\<close>.
\<close>

datatype atom = Lit char | AnyChar

datatype piece = Once atom | Star atom

definition syntaxChars :: "char list" where
  "syntaxChars = [CHR ''^'', CHR ''$'', CHR 0x5C, CHR ''.'', CHR ''*'', CHR ''+'', CHR ''?'',
                  CHR ''('', CHR '')'', CHR ''['', CHR '']'', CHR ''{'', CHR ''}'', CHR ''|'']"

definition parseAtom :: "char \<Rightarrow> atom option" where
  "parseAtom c =
     (if c = CHR ''.'' then Some AnyChar
      else if c \<in> set syntaxChars then None
      else Some (Lit c))"

fun parseRegExp :: "string \<Rightarrow> piece list option" where
  "parseRegExp [] = Some []"
| "parseRegExp (c # cs) =
     (case parseAtom c of
        None \<Rightarrow> None
      | Some a \<Rightarrow>
          (case cs of
             [] \<Rightarrow> Some [Once a]
           | d # ds \<Rightarrow>
               if d = CHR ''*''
               then (case parseRegExp ds of None \<Rightarrow> None | Some r \<Rightarrow> Some (Star a # r))
               else (case parseRegExp cs of None \<Rightarrow> None | Some r \<Rightarrow> Some (Once a # r))))"

text \<open>
  Without the \<^verbatim>\<open>s\<close> flag the dot matches every character except the line
  terminators; in an alphabet of 8-bit characters these are line feed and carriage return.
\<close>

definition isLineTerminator :: "char \<Rightarrow> bool" where
  "isLineTerminator c = (c = CHR 0x0A \<or> c = CHR 0x0D)"

fun matchAtom :: "atom \<Rightarrow> char \<Rightarrow> bool" where
  "matchAtom (Lit c) d = (c = d)"
| "matchAtom AnyChar d = (\<not> isLineTerminator d)"

text \<open>
  The backtracking matcher at a fixed start position: \<open>matchHere r t\<close> holds when some
  prefix of \<open>t\<close> matches the pieces \<open>r\<close>. A star is greedy: it first consumes one more
  character and only then tries the rest of the expression.
\<close>

fun matchHere :: "piece list \<Rightarrow> string \<Rightarrow> bool" where
  "matchHere [] t = True"
| "matchHere (Once a # r) [] = False"
| "matchHere (Once a # r) (c # t) = (matchAtom a c \<and> matchHere r t)"
| "matchHere (Star a # r) [] = matchHere r []"
| "matchHere (Star a # r) (c # t) =
     ((matchAtom a c \<and> matchHere (Star a # r) t) \<or> matchHere r (c # t))"

text \<open>
  \<^verbatim>\<open>regex.test(filePath)\<close> for an expression without flags: the match is tried at
  every start position, from the left.
\<close>

fun test :: "piece list \<Rightarrow> string \<Rightarrow> bool" where
  "test r [] = matchHere r []"
| "test r (c # t) = (matchHere r (c # t) \<or> test r t)"

definition matchesPattern :: "string \<Rightarrow> string \<Rightarrow> error + bool" where
  "matchesPattern filePath pattern =
     (case parseRegExp (replaceQuestion (replaceStar pattern)) of
        None \<Rightarrow> Inl UnsupportedPattern
      | Some regex \<Rightarrow> Inr (test regex filePath))"

subsection \<open>\<^verbatim>\<open>shouldIncludeFile\<close>\<close>

record SnapshotOptions =
  message :: "string option"
  includePatterns :: "string list option"
  excludePatterns :: "string list option"

definition defaultExcludes :: "string list" where
  "defaultExcludes = [''node_modules'', ''.git'', ''.vscode'', ''out'', ''dist'', ''*.log'']"

text \<open>
  Both loops of \<^verbatim>\<open>shouldIncludeFile\<close> (the \<^verbatim>\<open>for ... return false\<close> over the
  exclude patterns and \<^verbatim>\<open>includePatterns.some\<close>) stop at the first pattern that
  matches, and an exception of \<^verbatim>\<open>matchesPattern\<close> leaves them at once.
\<close>

fun somePattern :: "string \<Rightarrow> string list \<Rightarrow> error + bool" where
  "somePattern filePath [] = Inr False"
| "somePattern filePath (pattern # patterns) =
     (case matchesPattern filePath pattern of
        Inl e \<Rightarrow> Inl e
      | Inr True \<Rightarrow> Inr True
      | Inr False \<Rightarrow> somePattern filePath patterns)"

definition shouldIncludeFile :: "string \<Rightarrow> SnapshotOptions \<Rightarrow> error + bool" where
  "shouldIncludeFile filePath options =
     (case somePattern filePath
             (defaultExcludes @ (case excludePatterns options of None \<Rightarrow> [] | Some ps \<Rightarrow> ps)) of
        Inl e \<Rightarrow> Inl e
      | Inr True \<Rightarrow> Inr False
      | Inr False \<Rightarrow>
          (case includePatterns options of
             None \<Rightarrow> Inr True
           | Some ps \<Rightarrow> if ps \<noteq> [] then somePattern filePath ps else Inr True))"

subsection \<open>The directory tree that \<^verbatim>\<open>addFilesToZip\<close> walks\<close>

text \<open>
  What \<^verbatim>\<open>fs.readdir\<close> and \<^verbatim>\<open>fs.readFile\<close> answer below a root directory:
  a regular file with its bytes, an entry whose \<^verbatim>\<open>readFile\<close> is rejected, a
  directory with its entries in the order \<^verbatim>\<open>readdir\<close> lists them, and a directory
  whose \<^verbatim>\<open>readdir\<close> is rejected.
\<close>

datatype node =
    File bytes
  | Unreadable
  | Dir "(string \<times> node) list"
  | NoAccess

text \<open>
  \<^verbatim>\<open>path.join(relativePath, entry.name)\<close> on the names \<^verbatim>\<open>readdir\<close> returns
  (not empty, without separator, neither \<^verbatim>\<open>.\<close> nor \<^verbatim>\<open>..\<close>): an empty first
  argument is dropped, and nothing is left to normalise.
\<close>

definition path_join :: "string \<Rightarrow> string \<Rightarrow> string" where
  "path_join relativePath name =
     (if relativePath = [] then name else relativePath @ CHR ''/'' # name)"

subsection \<open>The archive object\<close>

text \<open>
  Modelled from the spec: the archive object of the third-party package \<^verbatim>\<open>adm-zip\<close>,
  which is imported by the source and is not part of it. Following the ArchiveCodec of the
  specification (``pack/unpack round-trips entry bytes exactly'', ``unpack creates any
  missing parent directories and, when overwrite is true, replaces existing files at the
  same relative path''), an archive is the sequence of its entries, \<^verbatim>\<open>addFile\<close>
  appends an entry, \<^verbatim>\<open>toBuffer\<close> followed by \<^verbatim>\<open>new AdmZip(path)\<close> gives the
  same entries back, and \<^verbatim>\<open>extractAllTo(target, true)\<close> writes the entries in order
  over the files of the target, which are indexed by relative path. What the package does
  with an entry name that leaves the target directory is not modelled; the names that
  \<^verbatim>\<open>addFilesToZip\<close> stores are relative paths below the scanned root.
\<close>

type_synonym zip = "(string \<times> bytes) list"

type_synonym files = "string \<rightharpoonup> bytes"

text \<open>
  Modelled from the spec: \<^verbatim>\<open>AdmZip.addFile\<close> of the package \<^verbatim>\<open>adm-zip\<close>, which is
  not under src/; the entry goes to the end of the archive.
\<close>

definition addFile :: "string \<Rightarrow> bytes \<Rightarrow> zip \<Rightarrow> zip" where
  "addFile entryName content z = z @ [(entryName, content)]"


subsection \<open>\<^verbatim>\<open>addFilesToZip\<close>\<close>

text \<open>
  The closure \<^verbatim>\<open>addDirectory\<close> mutates the archive and the counter
  \<^verbatim>\<open>fileCount\<close>; both are threaded through as a pair. \<open>addDirectory\<close> is the
  \<^verbatim>\<open>for\<close> loop over the entries of one directory and \<open>addEntry\<close> is its body.
  An exception of \<^verbatim>\<open>shouldIncludeFile\<close> or of \<^verbatim>\<open>readdir\<close> ends the whole
  scan; a rejected \<^verbatim>\<open>readFile\<close> is caught and the file is skipped.
\<close>

fun addDirectory :: "SnapshotOptions \<Rightarrow> string \<Rightarrow> (string \<times> node) list \<Rightarrow> zip \<times> nat
                       \<Rightarrow> error + zip \<times> nat"
  and addEntry :: "SnapshotOptions \<Rightarrow> string \<Rightarrow> node \<Rightarrow> zip \<times> nat \<Rightarrow> error + zip \<times> nat"
where
  "addDirectory options relativePath [] st = Inr st"
| "addDirectory options relativePath ((name, n) # entries) st =
     (if name = ''.snapshots'' then addDirectory options relativePath entries st
      else
        (case shouldIncludeFile (path_join relativePath name) options of
           Inl e \<Rightarrow> Inl e
         | Inr False \<Rightarrow> addDirectory options relativePath entries st
         | Inr True \<Rightarrow>
             (case addEntry options (path_join relativePath name) n st of
                Inl e \<Rightarrow> Inl e
              | Inr st' \<Rightarrow> addDirectory options relativePath entries st')))"
| "addEntry options relativeFilePath (Dir entries) st =
     addDirectory options relativeFilePath entries st"
| "addEntry options relativeFilePath NoAccess st = Inl IOError"
| "addEntry options relativeFilePath (File content) (z, fileCount) =
     Inr (addFile relativeFilePath content z, Suc fileCount)"
| "addEntry options relativeFilePath Unreadable st = Inr st"

definition addFilesToZip :: "zip \<Rightarrow> node \<Rightarrow> SnapshotOptions \<Rightarrow> error + zip \<times> nat" where
  "addFilesToZip z root options =
     (case root of
        Dir entries \<Rightarrow> addDirectory options [] entries (z, 0)
      | _ \<Rightarrow> Inl IOError)"

definition noOptions :: SnapshotOptions where
  "noOptions = \<lparr>message = None, includePatterns = None, excludePatterns = None\<rparr>"

subsection \<open>The storage directory and the metadata index\<close>

record SnapshotMetadata =
  id' :: string
  timestamp :: int
  message :: "string option"
  fileCount :: nat
  size' :: nat
  workspacePath :: string

text \<open>
  The state of the directory \<^verbatim>\<open>this.snapshotsDir\<close>: whether it exists, the container
  files by file name, and the document \<^verbatim>\<open>metadata.json\<close> (\<open>None\<close> when the file is
  missing or does not parse).
\<close>

record storage =
  dirExists :: bool
  containers :: "string \<rightharpoonup> zip"
  metadataDoc :: "SnapshotMetadata list option"

definition emptyStorage :: storage where
  "emptyStorage = \<lparr>dirExists = False, containers = Map.empty, metadataDoc = None\<rparr>"

text \<open>
  The text of a millisecond count inside a template literal: for an integer below
  \<open>10\<^sup>2\<^sup>1\<close> in absolute value (every value of \<^verbatim>\<open>Date.now()\<close>) this is its decimal
  notation.
\<close>

fun natToString :: "nat \<Rightarrow> string" where
  "natToString n =
     (if n < 10 then [''0123456789'' ! n]
      else natToString (n div 10) @ [''0123456789'' ! (n mod 10)])"

declare natToString.simps [simp del]

definition numToString :: "int \<Rightarrow> string" where
  "numToString i = (if i < 0 then CHR ''-'' # natToString (nat (- i)) else natToString (nat i))"

definition zipName :: "string \<Rightarrow> string" where
  "zipName snapshotId = snapshotId @ ''.zip''"

definition ensureSnapshotsDir :: "storage \<Rightarrow> storage" where
  "ensureSnapshotsDir s = s\<lparr>dirExists := True\<rparr>"

definition listSnapshots :: "storage \<Rightarrow> SnapshotMetadata list" where
  "listSnapshots s = (case metadataDoc s of None \<Rightarrow> [] | Some snapshots \<Rightarrow> snapshots)"

text \<open>\<^verbatim>\<open>fs.writeFile\<close> into the storage directory is rejected when the directory is missing.\<close>

definition saveMetadata :: "storage \<Rightarrow> SnapshotMetadata list \<Rightarrow> error + storage" where
  "saveMetadata s snapshots =
     (if dirExists s then Inr (s\<lparr>metadataDoc := Some snapshots\<rparr>) else Inl IOError)"

definition writeContainer :: "storage \<Rightarrow> string \<Rightarrow> zip \<Rightarrow> error + storage" where
  "writeContainer s fileName z =
     (if dirExists s then Inr (s\<lparr>containers := (containers s)(fileName \<mapsto> z)\<rparr>) else Inl IOError)"

text \<open>
  \<^verbatim>\<open>snapshots.sort((a, b) => b.timestamp - a.timestamp)\<close>: a stable sort, newest first.
\<close>

definition sortNewestFirst :: "SnapshotMetadata list \<Rightarrow> SnapshotMetadata list" where
  "sortNewestFirst snapshots = sort_key (\<lambda>m. - timestamp m) snapshots"

definition updateMetadata :: "storage \<Rightarrow> SnapshotMetadata \<Rightarrow> error + storage" where
  "updateMetadata s newMetadata =
     saveMetadata s (sortNewestFirst (listSnapshots s @ [newMetadata]))"

subsection \<open>\<^verbatim>\<open>saveSnapshot\<close>, \<^verbatim>\<open>restoreSnapshot\<close>, \<^verbatim>\<open>deleteSnapshot\<close>\<close>

text \<open>
  The arguments beyond those of the source: \<open>zipSize\<close>, the byte length of
  \<^verbatim>\<open>zip.toBuffer()\<close> that \<^verbatim>\<open>fs.stat\<close> reports; \<open>now\<close>, the value of
  \<^verbatim>\<open>Date.now()\<close>; and \<open>tree\<close>, what the file system holds at \<^verbatim>\<open>workspaceRoot\<close>.
  The result is the returned record or the exception, with the storage directory as the call
  leaves it.
\<close>

definition saveSnapshot ::
  "(zip \<Rightarrow> nat) \<Rightarrow> storage \<Rightarrow> int \<Rightarrow> string \<Rightarrow> node \<Rightarrow> SnapshotOptions
     \<Rightarrow> (error + SnapshotMetadata) \<times> storage" where
  "saveSnapshot zipSize s now workspaceRoot tree options =
     (let s1 = ensureSnapshotsDir s;
          snapshotId = ''snapshot_'' @ numToString now
      in case addFilesToZip [] tree options of
           Inl e \<Rightarrow> (Inl e, s1)
         | Inr (z, count) \<Rightarrow>
             (case writeContainer s1 (zipName snapshotId) z of
                Inl e \<Rightarrow> (Inl e, s1)
              | Inr s2 \<Rightarrow>
                  (let metadata = \<lparr>id' = snapshotId, timestamp = now,
                                    message = SnapshotOptions.message options,
                                    fileCount = count, size' = zipSize z,
                                    workspacePath = workspaceRoot\<rparr>
                   in case updateMetadata s2 metadata of
                        Inl e \<Rightarrow> (Inl e, s2)
                      | Inr s3 \<Rightarrow> (Inr metadata, s3))))"

text \<open>
  The regular files below a directory, by relative path: the files of the target directory
  that \<^verbatim>\<open>extractAllTo\<close> overwrites.
\<close>

fun allFiles :: "string \<Rightarrow> (string \<times> node) list \<Rightarrow> (string \<times> bytes) list"
  and filesAt :: "string \<Rightarrow> node \<Rightarrow> (string \<times> bytes) list"
where
  "allFiles relativePath [] = []"
| "allFiles relativePath ((name, n) # entries) =
     filesAt (path_join relativePath name) n @ allFiles relativePath entries"
| "filesAt relativeFilePath (File content) = [(relativeFilePath, content)]"
| "filesAt relativeFilePath (Dir entries) = allFiles relativeFilePath entries"
| "filesAt relativeFilePath Unreadable = []"
| "filesAt relativeFilePath NoAccess = []"

definition contentsOf :: "node \<Rightarrow> files" where
  "contentsOf target = map_of (filesAt [] target)"


text \<open>
  \<^verbatim>\<open>fs.unlink\<close> sits in a \<^verbatim>\<open>try\<close> whose \<^verbatim>\<open>catch\<close> is empty: a missing
  container is passed over.
\<close>

definition deleteSnapshot :: "storage \<Rightarrow> string \<Rightarrow> (error + unit) \<times> storage" where
  "deleteSnapshot s snapshotId =
     (let s1 = s\<lparr>containers := (containers s)(zipName snapshotId := None)\<rparr>;
          updatedSnapshots = filter (\<lambda>m. id' m \<noteq> snapshotId) (listSnapshots s1)
      in case saveMetadata s1 updatedSnapshots of
           Inl e \<Rightarrow> (Inl e, s1)
         | Inr s2 \<Rightarrow> (Inr (), s2))"

subsection \<open>Sequences of operations on one storage directory\<close>




subsection \<open>The glob syntax of the specification\<close>

text \<open>
  The pattern syntax in the words of the specification, as a matcher of a whole text:
  \<^verbatim>\<open>*\<close> matches any run of characters, \<^verbatim>\<open>?\<close> matches exactly one character,
  and every other character matches itself. The first argument is the pattern.
\<close>

fun glob :: "string \<Rightarrow> string \<Rightarrow> bool" where
  "glob [] t = (t = [])"
| "glob (c # q) [] = (c = CHR ''*'' \<and> glob q [])"
| "glob (c # q) (d # t) =
     (if c = CHR ''*'' then glob q (d # t) \<or> glob (c # q) t
      else (c = CHR ''?'' \<or> c = d) \<and> glob q t)"

text \<open>
  A pattern written with \<^verbatim>\<open>*\<close>, \<^verbatim>\<open>?\<close> and characters that have no meaning in a
  regular expression (so without the dot).
\<close>

definition globPattern :: "string \<Rightarrow> bool" where
  "globPattern q = list_all (\<lambda>c. c = CHR ''*'' \<or> c = CHR ''?'' \<or> c \<notin> set syntaxChars) q"

text \<open>The regular expression that \<^verbatim>\<open>matchesPattern\<close> builds from such a pattern.\<close>

fun pieces :: "string \<Rightarrow> piece list" where
  "pieces [] = []"
| "pieces (c # q) =
     (if c = CHR ''*'' then Star AnyChar else if c = CHR ''?'' then Once AnyChar else Once (Lit c))
     # pieces q"

subsection \<open>Example states\<close>

definition storedOnce :: storage where
  "storedOnce = \<lparr>dirExists = True, containers = Map.empty,
     metadataDoc = Some [\<lparr>id' = ''snapshot_1000'', timestamp = 1000, message = None,
                          fileCount = 1, size' = 22, workspacePath = ''/w''\<rparr>]\<rparr>"


subsection \<open>Well-formed trees, relative paths and lookup\<close>

text \<open>
  The names \<^verbatim>\<open>readdir\<close> returns: not empty, without separator, neither
  \<^verbatim>\<open>.\<close> nor \<^verbatim>\<open>..\<close>, and different from one another within a directory.
\<close>

definition wf_name :: "string \<Rightarrow> bool" where
  "wf_name name = (name \<noteq> [] \<and> CHR ''/'' \<notin> set name \<and> name \<noteq> ''.'' \<and> name \<noteq> ''..'')"

fun wf_entries :: "(string \<times> node) list \<Rightarrow> bool"
  and wf_node :: "node \<Rightarrow> bool"
where
  "wf_entries [] = True"
| "wf_entries ((name, n) # entries) =
     (wf_name name \<and> name \<notin> set (map fst entries) \<and> wf_node n \<and> wf_entries entries)"
| "wf_node (Dir entries) = wf_entries entries"
| "wf_node (File content) = True"
| "wf_node Unreadable = True"
| "wf_node NoAccess = True"

text \<open>
  The relative path of the entry reached by a list of names, as \<^verbatim>\<open>addDirectory\<close>
  builds it on the way down, and the entry itself.
\<close>

definition joinPath :: "string list \<Rightarrow> string" where
  "joinPath names = foldl path_join [] names"

fun lookup :: "(string \<times> node) list \<Rightarrow> string list \<Rightarrow> node option" where
  "lookup entries [] = None"
| "lookup entries [name] = map_of entries name"
| "lookup entries (name # names) =
     (case map_of entries name of
        Some (Dir sub) \<Rightarrow> lookup sub names
      | _ \<Rightarrow> None)"

definition entriesOf :: "node \<Rightarrow> (string \<times> node) list" where
  "entriesOf n = (case n of Dir entries \<Rightarrow> entries | _ \<Rightarrow> [])"

text \<open>
  A file that the scan started at relative path \<open>rel\<close> reaches: every relative path
  tested on the way down to it is accepted, and no name on the way is the skipped one.
\<close>

definition reached ::
  "SnapshotOptions \<Rightarrow> string \<Rightarrow> (string \<times> node) list \<Rightarrow> string \<Rightarrow> bytes \<Rightarrow> bool" where
  "reached options rel entries p content =
     (\<exists>names. names \<noteq> [] \<and> p = foldl path_join rel names
        \<and> lookup entries names = Some (File content)
        \<and> (\<forall>k. 0 < k \<and> k \<le> length names
               \<longrightarrow> shouldIncludeFile (foldl path_join rel (take k names)) options = Inr True)
        \<and> ''.snapshots'' \<notin> set names
        \<and> list_all wf_name names)"

subsection \<open>Capture followed by restore into an empty directory\<close>


subsection \<open>Example trees, options and storage states\<close>

definition exampleTree :: node where
  "exampleTree =
     Dir [(''src'', Dir [(''a.ts'', File [1])]),
          (''b.ts'', File [2]),
          (''.git'', Dir [(''config'', File [3])]),
          (''notes.log'', File [4])]"

definition tsOnly :: SnapshotOptions where
  "tsOnly = noOptions\<lparr>includePatterns := Some [''*.ts'']\<rparr>"

definition includeAll :: SnapshotOptions where
  "includeAll = noOptions\<lparr>includePatterns := Some [''*'']\<rparr>"

definition snapsTree :: node where
  "snapsTree =
     Dir [(''snaps'', Dir [(''snapshot_1000.zip'', File [80, 75]), (''metadata.json'', File [91, 93])]),
          (''a.txt'', File [1])]"



definition firstRecord :: SnapshotMetadata where
  "firstRecord = \<lparr>id' = ''snapshot_1000'', timestamp = 1000, message = None, fileCount = 2,
                   size' = 2, workspacePath = ''/w''\<rparr>"

definition afterFirst :: storage where
  "afterFirst = \<lparr>dirExists = True,
     containers = [''snapshot_1000.zip'' \<mapsto> [(''src/a.ts'', [1]), (''b.ts'', [2])]],
     metadataDoc = Some [firstRecord]\<rparr>"

definition secondRecord :: SnapshotMetadata where
  "secondRecord = \<lparr>id' = ''snapshot_1000'', timestamp = 1000, message = None, fileCount = 3,
                    size' = 3, workspacePath = ''/w''\<rparr>"

definition afterSecond :: storage where
  "afterSecond = \<lparr>dirExists = True,
     containers = [''snapshot_1000.zip'' \<mapsto>
        [(''snaps/snapshot_1000.zip'', [80, 75]), (''snaps/metadata.json'', [91, 93]),
         (''a.txt'', [1])]],
     metadataDoc = Some [firstRecord, secondRecord]\<rparr>"

section \<open>Properties\<close>

subsection \<open>The metadata index\<close>








text \<open>
  Claim C9, as amended. In a storage directory that exists, \<^verbatim>\<open>deleteSnapshot\<close> called
  twice with the same identifier returns normally both times, whether or not the container
  file is on disk; after either call no record of the index carries the identifier, and
  the second call changes nothing. When the storage directory does not exist the call
  throws: the index document cannot be written.
\<close>

theorem delete_idempotent:
  "(dirExists s \<longrightarrow>
      fst (deleteSnapshot s i) = Inr ()
    \<and> fst (deleteSnapshot (snd (deleteSnapshot s i)) i) = Inr ()
    \<and> i \<notin> set (map id' (listSnapshots (snd (deleteSnapshot s i))))
    \<and> i \<notin> set (map id' (listSnapshots (snd (deleteSnapshot (snd (deleteSnapshot s i)) i))))
    \<and> containers (snd (deleteSnapshot s i)) (zipName i) = None
    \<and> snd (deleteSnapshot (snd (deleteSnapshot s i)) i) = snd (deleteSnapshot s i))
   \<and> (\<not> dirExists s \<longrightarrow> fst (deleteSnapshot s i) = Inl IOError)"
  by (auto simp: deleteSnapshot_def Let_def saveMetadata_def listSnapshots_def)

text \<open>
  Claim C9 as stated fails: in a workspace whose storage directory was never created the
  first call already throws.
\<close>

theorem delete_without_directory_counterexample:
  "fst (deleteSnapshot emptyStorage ''snapshot_1000'') = Inl IOError"
  by (simp add: deleteSnapshot_def Let_def saveMetadata_def emptyStorage_def)


theorem delete_idempotent_witness:
  "dirExists storedOnce
   \<and> listSnapshots storedOnce \<noteq> []
   \<and> containers storedOnce (zipName ''snapshot_1000'') = None
   \<and> fst (deleteSnapshot storedOnce ''snapshot_1000'') = Inr ()
   \<and> fst (deleteSnapshot (snd (deleteSnapshot storedOnce ''snapshot_1000'')) ''snapshot_1000'')
       = Inr ()
   \<and> listSnapshots (snd (deleteSnapshot storedOnce ''snapshot_1000'')) = []"
proof -
  have d: "dirExists storedOnce" by (simp add: storedOnce_def)
  have l: "listSnapshots (snd (deleteSnapshot storedOnce ''snapshot_1000'')) = []"
    by (simp add: storedOnce_def deleteSnapshot_def Let_def saveMetadata_def listSnapshots_def)
  show ?thesis
    using delete_idempotent [of storedOnce "''snapshot_1000''"] d l
    by (simp add: storedOnce_def listSnapshots_def)
qed

subsection \<open>The pattern filter\<close>

lemma replaced_hd:
  "globPattern q \<Longrightarrow> replaceQuestion (replaceStar q) = d # ds \<Longrightarrow> d \<noteq> CHR ''*''"
  by (cases q) (auto simp: globPattern_def syntaxChars_def split: if_splits)

lemma parse_globPattern:
  "globPattern q \<Longrightarrow> parseRegExp (replaceQuestion (replaceStar q)) = Some (pieces q)"
proof (induction q)
  case Nil
  then show ?case by simp
next
  case (Cons c q)
  then have gq: "globPattern q" and ih: "parseRegExp (replaceQuestion (replaceStar q)) = Some (pieces q)"
    by (simp_all add: globPattern_def)
  have nostar: "\<And>d ds. replaceQuestion (replaceStar q) = d # ds \<Longrightarrow> d \<noteq> CHR ''*''"
    using replaced_hd [OF gq] by blast
  from Cons.prems have c: "c = CHR ''*'' \<or> c = CHR ''?'' \<or> c \<notin> set syntaxChars"
    by (simp add: globPattern_def)
  show ?case
  proof (cases "replaceQuestion (replaceStar q)")
    case Nil
    with c ih show ?thesis
      by (auto simp: parseAtom_def syntaxChars_def)
  next
    case (Cons d ds)
    with nostar have "d \<noteq> CHR ''*''" by blast
    with c ih Cons show ?thesis
      by (auto simp: parseAtom_def syntaxChars_def)
  qed
qed

lemma glob_matchHere:
  "glob q u \<Longrightarrow> \<forall>c\<in>set u. \<not> isLineTerminator c \<Longrightarrow> matchHere (pieces q) (u @ v)"
proof (induction q u rule: glob.induct)
  case (1 t)
  then show ?case by simp
next
  case (2 c q)
  then show ?case by (cases v) auto
next
  case (3 c q d t)
  then show ?case by (auto split: if_splits)
qed

lemma glob_star_skip: "glob q u \<Longrightarrow> glob (CHR ''*'' # q) u"
  by (cases u) simp_all

lemma matchHere_glob:
  "matchHere (pieces q) t \<Longrightarrow> \<exists>u v. t = u @ v \<and> glob q u"
proof (induction q t rule: glob.induct)
  case (1 t)
  then show ?case by simp
next
  case (2 c q)
  then show ?case by (auto split: if_splits)
next
  case (3 c q d t)
  show ?case
  proof (cases "c = CHR ''*''")
    case True
    from "3.prems" True
    consider (more) "matchHere (pieces (c # q)) t" | (skip) "matchHere (pieces q) (d # t)"
      by auto
    then show ?thesis
    proof cases
      case more
      with "3.IH"(2) True obtain u v where "t = u @ v" "glob (c # q) u" by blast
      with True have "d # t = (d # u) @ v \<and> glob (c # q) (d # u)" by simp
      then show ?thesis by blast
    next
      case skip
      with "3.IH"(1) True obtain u v where "d # t = u @ v" "glob q u" by blast
      with True show ?thesis using glob_star_skip by blast
    qed
  next
    case False
    with "3.prems" have m: "matchHere (pieces q) t" and cd: "c = CHR ''?'' \<or> c = d"
      by (auto split: if_splits)
    with "3.IH"(3) False obtain u v where "t = u @ v" "glob q u" by blast
    with False cd have "d # t = (d # u) @ v \<and> glob (c # q) (d # u)" by simp
    then show ?thesis by blast
  qed
qed

lemma test_iff: "test r t = (\<exists>pre rest. t = pre @ rest \<and> matchHere r rest)"
proof (induction t)
  case Nil
  then show ?case by simp
next
  case (Cons c t)
  show ?case
  proof
    assume "test r (c # t)"
    then consider "matchHere r (c # t)" | "test r t" by auto
    then show "\<exists>pre rest. c # t = pre @ rest \<and> matchHere r rest"
    proof cases
      case 1
      then have "c # t = [] @ (c # t) \<and> matchHere r (c # t)" by simp
      then show ?thesis by blast
    next
      case 2
      with Cons obtain pre rest where "t = pre @ rest" "matchHere r rest" by blast
      then have "c # t = (c # pre) @ rest \<and> matchHere r rest" by simp
      then show ?thesis by blast
    qed
  next
    assume "\<exists>pre rest. c # t = pre @ rest \<and> matchHere r rest"
    then obtain pre rest where pr: "c # t = pre @ rest" "matchHere r rest" by blast
    note ih = Cons.IH
    show "test r (c # t)"
    proof (cases pre)
      case Nil
      with pr have "matchHere r (c # t)" by simp
      then show ?thesis by simp
    next
      case (Cons a pre')
      with pr have "t = pre' @ rest" by simp
      with pr ih have "test r t" by blast
      then show ?thesis by simp
    qed
  qed
qed

text \<open>
  Claim C5, as amended. For a path without line terminators and a pattern written with
  \<^verbatim>\<open>*\<close>, \<^verbatim>\<open>?\<close> and ordinary characters, \<^verbatim>\<open>matchesPattern\<close> answers whether
  some contiguous part of the path matches the pattern, where \<^verbatim>\<open>*\<close> matches any run
  of characters and \<^verbatim>\<open>?\<close> exactly one: the match is a search inside the path, not a
  match of the path as a whole.
\<close>

theorem matchesPattern_substring_glob:
  assumes "globPattern q" and "\<forall>c\<in>set p. \<not> isLineTerminator c"
  shows "matchesPattern p q = Inr (\<exists>pre u post. p = pre @ u @ post \<and> glob q u)"
proof -
  have "test (pieces q) p = (\<exists>pre u post. p = pre @ u @ post \<and> glob q u)"
  proof
    assume "test (pieces q) p"
    then obtain pre rest where "p = pre @ rest" "matchHere (pieces q) rest"
      unfolding test_iff by blast
    then show "\<exists>pre u post. p = pre @ u @ post \<and> glob q u"
      using matchHere_glob by blast
  next
    assume "\<exists>pre u post. p = pre @ u @ post \<and> glob q u"
    then obtain pre u post where p: "p = pre @ u @ post" and g: "glob q u" by blast
    from p assms(2) have "\<forall>c\<in>set u. \<not> isLineTerminator c" by simp
    with g have "matchHere (pieces q) (u @ post)" by (rule glob_matchHere)
    with p show "test (pieces q) p" unfolding test_iff by blast
  qed
  with assms(1) show ?thesis
    by (simp add: matchesPattern_def parse_globPattern)
qed

text \<open>
  Claim C5 as stated fails: the pattern \<^verbatim>\<open>out\<close> matches inside \<^verbatim>\<open>layout\<close>, which
  as a whole is not matched by the glob \<^verbatim>\<open>out\<close>.
\<close>

theorem matchesPattern_whole_counterexample:
  "matchesPattern ''layout'' ''out'' = Inr True \<and> \<not> glob ''out'' ''layout''"
  by (simp add: matchesPattern_def parseAtom_def syntaxChars_def)

theorem matchesPattern_substring_glob_witness:
  "globPattern ''sr?/*t'' \<and> \<not> list_ex isLineTerminator ''a/src/a.ts''
   \<and> matchesPattern ''a/src/a.ts'' ''sr?/*t'' = Inr True
   \<and> (\<exists>pre u post. ''a/src/a.ts'' = pre @ u @ post \<and> glob ''sr?/*t'' u)"
proof -
  have g: "globPattern ''sr?/*t''" by (simp add: globPattern_def syntaxChars_def)
  have l: "\<forall>c\<in>set ''a/src/a.ts''. \<not> isLineTerminator c" by (simp add: isLineTerminator_def)
  have m: "matchesPattern ''a/src/a.ts'' ''sr?/*t'' = Inr True"
    by (simp add: matchesPattern_def parseAtom_def syntaxChars_def isLineTerminator_def)
  show ?thesis
    using matchesPattern_substring_glob [OF g l] g l m by (simp add: list_ex_iff)
qed

subsection \<open>The directory scan\<close>

lemma lookup_Nil [simp]: "lookup [] names = None"
  by (induction "[] :: (string \<times> node) list" names rule: lookup.induct) simp_all

lemma lookup_Cons:
  "lookup ((name, n) # es) (s # ss) =
     (if s = name then (if ss = [] then Some n else lookup (entriesOf n) ss)
      else lookup es (s # ss))"
  by (cases ss; cases n) (simp_all add: entriesOf_def)

lemma map_of_Some_fst: "map_of es s = Some x \<Longrightarrow> s \<in> fst ` set es"
  by (metis domI dom_map_of_conv_image_fst)

lemma lookup_Some_hd:
  "lookup es (s # ss) = Some x \<Longrightarrow> s \<in> fst ` set es"
  by (cases ss) (auto split: option.splits node.splits intro: map_of_Some_fst)

lemma reached_here:
  assumes "shouldIncludeFile (path_join rel name) opts = Inr True"
    and "name \<noteq> ''.snapshots''" and "wf_name name"
  shows "reached opts rel ((name, File c) # es) (path_join rel name) c"
  unfolding reached_def
proof (intro exI [of _ "[name]"] conjI allI impI)
  fix k assume "0 < k \<and> k \<le> length [name]"
  then have "k = 1" by simp
  with assms(1) show "shouldIncludeFile (foldl path_join rel (take k [name])) opts = Inr True"
    by simp
qed (use assms in simp_all)

lemma reached_below:
  assumes r: "reached opts (path_join rel name) sub p c"
    and inc: "shouldIncludeFile (path_join rel name) opts = Inr True"
    and ns: "name \<noteq> ''.snapshots''" and wf: "wf_name name"
  shows "reached opts rel ((name, Dir sub) # es) p c"
proof -
  from r obtain names where n: "names \<noteq> []" "p = foldl path_join (path_join rel name) names"
    "lookup sub names = Some (File c)"
    "\<forall>k. 0 < k \<and> k \<le> length names
       \<longrightarrow> shouldIncludeFile (foldl path_join (path_join rel name) (take k names)) opts = Inr True"
    "''.snapshots'' \<notin> set names" "list_all wf_name names"
    unfolding reached_def by blast
  show ?thesis
    unfolding reached_def
  proof (intro exI [of _ "name # names"] conjI allI impI)
    show "lookup ((name, Dir sub) # es) (name # names) = Some (File c)"
      using n(1,3) by (simp add: lookup_Cons entriesOf_def)
    fix k assume k: "0 < k \<and> k \<le> length (name # names)"
    show "shouldIncludeFile (foldl path_join rel (take k (name # names))) opts = Inr True"
    proof (cases k)
      case 0
      with k show ?thesis by simp
    next
      case (Suc j)
      show ?thesis
      proof (cases "j = 0")
        case True
        with Suc inc show ?thesis by simp
      next
        case False
        with Suc k n(4) show ?thesis by simp
      qed
    qed
  qed (use n ns wf in simp_all)
qed

lemma reached_later:
  assumes r: "reached opts rel es p c" and d: "name \<notin> fst ` set es"
  shows "reached opts rel ((name, n) # es) p c"
proof -
  from r obtain names where n: "names \<noteq> []" "p = foldl path_join rel names"
    "lookup es names = Some (File c)"
    "\<forall>k. 0 < k \<and> k \<le> length names
       \<longrightarrow> shouldIncludeFile (foldl path_join rel (take k names)) opts = Inr True"
    "''.snapshots'' \<notin> set names" "list_all wf_name names"
    unfolding reached_def by blast
  from n(1) obtain s ss where ss: "names = s # ss" by (cases names) auto
  with n(3) have "s \<in> fst ` set es" using lookup_Some_hd by blast
  with d have "s \<noteq> name" by blast
  with ss n(3) have "lookup ((name, n) # es) names = Some (File c)"
    by (simp add: lookup_Cons)
  with n show ?thesis unfolding reached_def by blast
qed

lemma scan_sound:
  "wf_entries es \<Longrightarrow> addDirectory opts rel es st = Inr st' \<Longrightarrow> (q, c) \<in> set (fst st')
   \<Longrightarrow> (q, c) \<in> set (fst st) \<or> reached opts rel es q c"
  "wf_node n \<Longrightarrow> addEntry opts rfp n st = Inr st'
   \<Longrightarrow> (q, c) \<in> set (fst st') \<Longrightarrow> (q, c) \<in> set (fst st) \<or> (n = File c \<and> q = rfp)
       \<or> reached opts rfp (entriesOf n) q c"
proof (induction opts rel es st and opts rfp n st arbitrary: st' and st'
    rule: addDirectory_addEntry.induct)
  case (1 options relativePath st)
  then show ?case by simp
next
  case (2 options relativePath name n entries st)
  from "2.prems"(1) have wfn: "wf_name name" and dis: "name \<notin> fst ` set entries"
    and wn: "wf_node n" and we: "wf_entries entries" by simp_all
  have later: "reached options relativePath entries q c
      \<Longrightarrow> reached options relativePath ((name, n) # entries) q c"
    using dis by (rule reached_later [rotated])
  show ?case
  proof (cases "name = ''.snapshots''")
    case True
    with "2.prems" "2.IH"(1) [OF True we] later show ?thesis by auto
  next
    case ns: False
    show ?thesis
    proof (cases "shouldIncludeFile (path_join relativePath name) options")
      case (Inl e)
      with ns "2.prems" show ?thesis by simp
    next
      case (Inr b)
      show ?thesis
      proof (cases b)
        case False
        with ns Inr "2.prems" "2.IH"(4) [OF ns Inr _ we] later show ?thesis by auto
      next
        case True
        from Inr True
        have inc: "shouldIncludeFile (path_join relativePath name) options = Inr True" by simp
        with ns "2.prems" obtain st1 where
          a: "addEntry options (path_join relativePath name) n st = Inr st1" and
          d: "addDirectory options relativePath entries st1 = Inr st'"
          by (auto split: sum.splits)
        have "(q, c) \<in> set (fst st1) \<or> reached options relativePath entries q c"
          using "2.IH"(3) [OF ns inc refl a we d "2.prems"(3)] .
        moreover have "(q, c) \<in> set (fst st1)
            \<Longrightarrow> (q, c) \<in> set (fst st) \<or> (n = File c \<and> q = path_join relativePath name)
               \<or> reached options (path_join relativePath name) (entriesOf n) q c"
          using "2.IH"(2) [OF ns inc refl wn a] .
        moreover have "n = File c \<and> q = path_join relativePath name
            \<Longrightarrow> reached options relativePath ((name, n) # entries) q c"
          using reached_here [OF inc ns wfn] by simp
        moreover have "reached options (path_join relativePath name) (entriesOf n) q c
            \<Longrightarrow> reached options relativePath ((name, n) # entries) q c"
        proof (cases n)
          case (Dir sub)
          assume "reached options (path_join relativePath name) (entriesOf n) q c"
          with Dir show ?thesis using reached_below [OF _ inc ns wfn] by (simp add: entriesOf_def)
        qed (simp_all add: entriesOf_def reached_def)
        ultimately show ?thesis using later by blast
      qed
    qed
  qed
next
  case (3 options relativeFilePath entries st)
  then show ?case by (simp add: entriesOf_def)
next
  case (4 options relativeFilePath st)
  then show ?case by simp
next
  case (5 options relativeFilePath content z fileCount)
  then show ?case by (auto simp: addFile_def)
next
  case (6 options relativeFilePath st)
  then show ?case by simp
qed


lemma scan_shape:
  "addDirectory opts rel es st = Inr st'
   \<Longrightarrow> \<exists>new. st' = (fst st @ new, snd st + length new)"
  "addEntry opts rfp n st = Inr st'
   \<Longrightarrow> \<exists>new. st' = (fst st @ new, snd st + length new)"
proof (induction opts rel es st and opts rfp n st arbitrary: st' and st'
    rule: addDirectory_addEntry.induct)
  case (2 options relativePath name n entries st)
  show ?case
  proof (cases "name = ''.snapshots''")
    case True
    with 2 show ?thesis by simp
  next
    case ns: False
    show ?thesis
    proof (cases "shouldIncludeFile (path_join relativePath name) options")
      case (Inl e)
      with ns "2.prems" show ?thesis by simp
    next
      case (Inr b)
      show ?thesis
      proof (cases b)
        case False
        with ns Inr "2.prems" "2.IH"(4) [OF ns Inr] show ?thesis by auto
      next
        case True
        from Inr True
        have inc: "shouldIncludeFile (path_join relativePath name) options = Inr True" by simp
        with ns "2.prems" obtain st1 where
          a: "addEntry options (path_join relativePath name) n st = Inr st1" and
          d: "addDirectory options relativePath entries st1 = Inr st'"
          by (auto split: sum.splits)
        from "2.IH"(2) [OF ns inc refl a] obtain new1
          where n1: "st1 = (fst st @ new1, snd st + length new1)" by blast
        from "2.IH"(3) [OF ns inc refl a d] obtain new2
          where n2: "st' = (fst st1 @ new2, snd st1 + length new2)" by blast
        from n1 n2 have "st' = (fst st @ (new1 @ new2), snd st + length (new1 @ new2))"
          by simp
        then show ?thesis by blast
      qed
    qed
  qed
next
  case (5 options relativeFilePath content z fileCount)
  then have "st' = (fst (z, fileCount) @ [(relativeFilePath, content)],
                    snd (z, fileCount) + length [(relativeFilePath, content)])"
    by (auto simp: addFile_def)
  then show ?case by blast
qed auto

lemma scan_mono:
  "addDirectory opts rel es st = Inr st' \<Longrightarrow> set (fst st) \<subseteq> set (fst st')"
  "addEntry opts rfp n st = Inr st' \<Longrightarrow> set (fst st) \<subseteq> set (fst st')"
  using scan_shape(1) [of opts rel es st st'] scan_shape(2) [of opts rfp n st st'] by auto

lemma reached_Cons_cases:
  assumes "reached opts rel ((name, n) # es) q c"
  shows "(name \<noteq> ''.snapshots'' \<and> shouldIncludeFile (path_join rel name) opts = Inr True
          \<and> ((n = File c \<and> q = path_join rel name)
              \<or> reached opts (path_join rel name) (entriesOf n) q c))
         \<or> reached opts rel es q c"
proof -
  from assms obtain names where n: "names \<noteq> []" "q = foldl path_join rel names"
    "lookup ((name, n) # es) names = Some (File c)"
    "\<forall>k. 0 < k \<and> k \<le> length names
       \<longrightarrow> shouldIncludeFile (foldl path_join rel (take k names)) opts = Inr True"
    "''.snapshots'' \<notin> set names" "list_all wf_name names"
    unfolding reached_def by blast
  from n(1) obtain s ss where ss: "names = s # ss" by (cases names) auto
  show ?thesis
  proof (cases "s = name")
    case False
    with n ss have "lookup es names = Some (File c)" by (simp add: lookup_Cons)
    with n have "reached opts rel es q c" unfolding reached_def by blast
    then show ?thesis by blast
  next
    case True
    from n(5) ss True have ns: "name \<noteq> ''.snapshots''" by auto
    from n(4) [rule_format, of 1] ss True
    have inc: "shouldIncludeFile (path_join rel name) opts = Inr True" by simp
    show ?thesis
    proof (cases "ss = []")
      case True
      with n(2,3) ss \<open>s = name\<close> have "n = File c \<and> q = path_join rel name"
        by (simp add: lookup_Cons)
      with ns inc show ?thesis by blast
    next
      case False
      have ch: "\<forall>k. 0 < k \<and> k \<le> length ss
          \<longrightarrow> shouldIncludeFile (foldl path_join (path_join rel name) (take k ss)) opts = Inr True"
      proof (intro allI impI)
        fix k assume "0 < k \<and> k \<le> length ss"
        with n(4) [rule_format, of "Suc k"] ss True
        show "shouldIncludeFile (foldl path_join (path_join rel name) (take k ss)) opts = Inr True"
          by simp
      qed
      from n ss True False have "lookup (entriesOf n) ss = Some (File c)"
        by (simp add: lookup_Cons)
      with False n ss True ch have "reached opts (path_join rel name) (entriesOf n) q c"
        unfolding reached_def by (intro exI [of _ ss]) simp
      with ns inc show ?thesis by blast
    qed
  qed
qed

lemma reached_Nil [simp]: "\<not> reached opts rel [] q c"
  by (simp add: reached_def)

lemma scan_complete:
  "addDirectory opts rel es st = Inr st' \<Longrightarrow> reached opts rel es q c
   \<Longrightarrow> (q, c) \<in> set (fst st')"
  "addEntry opts rfp n st = Inr st'
   \<Longrightarrow> (n = File c \<and> q = rfp) \<or> reached opts rfp (entriesOf n) q c
   \<Longrightarrow> (q, c) \<in> set (fst st')"
proof (induction opts rel es st and opts rfp n st arbitrary: st' and st'
    rule: addDirectory_addEntry.induct)
  case (1 options relativePath st)
  then show ?case by simp
next
  case (2 options relativePath name n entries st)
  note cases = reached_Cons_cases [OF "2.prems"(2)]
  show ?case
  proof (cases "name = ''.snapshots''")
    case True
    with cases have "reached options relativePath entries q c" by blast
    with True "2.prems" "2.IH"(1) show ?thesis by simp
  next
    case ns: False
    show ?thesis
    proof (cases "shouldIncludeFile (path_join relativePath name) options")
      case (Inl e)
      with ns "2.prems" show ?thesis by simp
    next
      case (Inr b)
      show ?thesis
      proof (cases b)
        case False
        with Inr cases have "reached options relativePath entries q c" by auto
        with False ns Inr "2.prems" "2.IH"(4) [OF ns Inr] show ?thesis by auto
      next
        case True
        from Inr True
        have inc: "shouldIncludeFile (path_join relativePath name) options = Inr True" by simp
        with ns "2.prems" obtain st1 where
          a: "addEntry options (path_join relativePath name) n st = Inr st1" and
          d: "addDirectory options relativePath entries st1 = Inr st'"
          by (auto split: sum.splits)
        from cases consider
          (here) "(n = File c \<and> q = path_join relativePath name)
              \<or> reached options (path_join relativePath name) (entriesOf n) q c"
          | (later) "reached options relativePath entries q c" by blast
        then show ?thesis
        proof cases
          case here
          from "2.IH"(2) [OF ns inc refl a here] have "(q, c) \<in> set (fst st1)" .
          with scan_mono(1) [OF d] show ?thesis by blast
        next
          case later
          from "2.IH"(3) [OF ns inc refl a d later] show ?thesis .
        qed
      qed
    qed
  qed
next
  case (3 options relativeFilePath entries st)
  then show ?case by (simp add: entriesOf_def)
next
  case (4 options relativeFilePath st)
  then show ?case by simp
next
  case (5 options relativeFilePath content z fileCount)
  then show ?case by (auto simp: addFile_def entriesOf_def)
next
  case (6 options relativeFilePath st)
  then show ?case by (simp add: entriesOf_def)
qed


lemma foldl_path_join:
  "rel \<noteq> [] \<Longrightarrow> foldl path_join rel ss = rel @ concat (map ((#) CHR ''/'') ss)"
  by (induction ss arbitrary: rel) (simp_all add: path_join_def)

lemma joinPath_Cons:
  "s \<noteq> [] \<Longrightarrow> joinPath (s # ss) = s @ concat (map ((#) CHR ''/'') ss)"
  by (simp add: joinPath_def path_join_def foldl_path_join)

lemma takeWhile_tail [simp]:
  "takeWhile (\<lambda>c. c \<noteq> CHR ''/'') (concat (map ((#) CHR ''/'') ss)) = []"
  by (cases ss) simp_all

lemma split_first:
  assumes "CHR ''/'' \<notin> set a" and "CHR ''/'' \<notin> set b"
    and "a @ concat (map ((#) CHR ''/'') x) = b @ concat (map ((#) CHR ''/'') y)"
  shows "a = b \<and> concat (map ((#) CHR ''/'') x) = concat (map ((#) CHR ''/'') y)"
proof -
  have "takeWhile (\<lambda>c. c \<noteq> CHR ''/'') (a @ concat (map ((#) CHR ''/'') x)) = a"
    using assms(1) by (subst takeWhile_append2) auto
  moreover have "takeWhile (\<lambda>c. c \<noteq> CHR ''/'') (b @ concat (map ((#) CHR ''/'') y)) = b"
    using assms(2) by (subst takeWhile_append2) auto
  ultimately have "a = b" using assms(3) by simp
  with assms(3) show ?thesis by simp
qed

lemma tail_inj:
  "list_all wf_name x \<Longrightarrow> list_all wf_name y
   \<Longrightarrow> concat (map ((#) CHR ''/'') x) = concat (map ((#) CHR ''/'') y) \<Longrightarrow> x = y"
proof (induction x arbitrary: y)
  case Nil
  then show ?case by (cases y) simp_all
next
  case (Cons s xs)
  then obtain t ys where y: "y = t # ys" by (cases y) auto
  with Cons.prems have "s @ concat (map ((#) CHR ''/'') xs) = t @ concat (map ((#) CHR ''/'') ys)"
    by simp
  moreover from Cons.prems y have "CHR ''/'' \<notin> set s" "CHR ''/'' \<notin> set t"
    by (simp_all add: wf_name_def)
  ultimately have "s = t \<and> concat (map ((#) CHR ''/'') xs) = concat (map ((#) CHR ''/'') ys)"
    by (intro split_first)
  with Cons y show ?case by simp
qed

lemma joinPath_inj:
  assumes "list_all wf_name a" and "list_all wf_name b" and "joinPath a = joinPath b"
  shows "a = b"
proof (cases a)
  case Nil
  show ?thesis
  proof (cases b)
    case (Cons t ys)
    with assms(2) have "t \<noteq> []" by (simp add: wf_name_def)
    with Nil Cons assms(3) show ?thesis by (simp add: joinPath_Cons) (simp add: joinPath_def)
  qed (simp add: Nil)
next
  case (Cons s xs)
  with assms(1) have s: "s \<noteq> []" "CHR ''/'' \<notin> set s" by (simp_all add: wf_name_def)
  show ?thesis
  proof (cases b)
    case Nil
    with Cons s assms(3) show ?thesis by (simp add: joinPath_Cons) (simp add: joinPath_def)
  next
    case c2: (Cons t ys)
    with assms(2) have t: "t \<noteq> []" "CHR ''/'' \<notin> set t" by (simp_all add: wf_name_def)
    from assms(3) Cons c2 s t
    have "s @ concat (map ((#) CHR ''/'') xs) = t @ concat (map ((#) CHR ''/'') ys)"
      by (simp add: joinPath_Cons)
    with s t have "s = t \<and> concat (map ((#) CHR ''/'') xs) = concat (map ((#) CHR ''/'') ys)"
      by (intro split_first)
    moreover from assms Cons c2 have "list_all wf_name xs" "list_all wf_name ys" by simp_all
    ultimately show ?thesis using tail_inj Cons c2 by blast
  qed
qed

lemma wf_entries_mem:
  "wf_entries es \<Longrightarrow> (name, n) \<in> set es \<Longrightarrow> wf_name name \<and> wf_node n"
  by (induction es) auto

lemma lookup_wf_names:
  "wf_entries es \<Longrightarrow> lookup es names = Some x \<Longrightarrow> list_all wf_name names"
proof (induction es names rule: lookup.induct)
  case (1 entries)
  then show ?case by simp
next
  case (2 entries name)
  then have "(name, x) \<in> set entries" by (auto dest: map_of_SomeD)
  with "2.prems"(1) show ?case using wf_entries_mem by auto
next
  case (3 entries name v va)
  from "3.prems"(2) obtain sub where m: "map_of entries name = Some (Dir sub)"
    and l: "lookup sub (v # va) = Some x"
    by (auto split: option.splits node.splits)
  from m have "(name, Dir sub) \<in> set entries" by (rule map_of_SomeD)
  with "3.prems"(1) have "wf_name name" "wf_entries sub" using wf_entries_mem by fastforce+
  with "3.IH" [OF m refl _ l] show ?case by simp
qed



lemma capture_iff:
  assumes "wf_node tree" and "addFilesToZip [] tree opts = Inr (z, count)"
  shows "(p, c) \<in> set z \<longleftrightarrow> reached opts [] (entriesOf tree) p c"
    and "count = length z" and "\<exists>es. tree = Dir es"
proof -
  from assms(2) obtain es where t: "tree = Dir es"
    and d: "addDirectory opts [] es ([], 0) = Inr (z, count)"
    by (auto simp: addFilesToZip_def split: node.splits)
  from t show "\<exists>es. tree = Dir es" by blast
  from assms(1) t have wf: "wf_entries es" by simp
  from scan_shape(1) [OF d] show "count = length z" by auto
  show "(p, c) \<in> set z \<longleftrightarrow> reached opts [] (entriesOf tree) p c"
    using scan_sound(1) [OF wf d, of p c] scan_complete(1) [OF d, of p c] t
    by (auto simp: entriesOf_def)
qed



lemma zipName_inj [simp]: "zipName a = zipName b \<longleftrightarrow> a = b"
  by (simp add: zipName_def)

lemma scan_empty [simp]: "addFilesToZip [] (Dir []) opts = Inr ([], 0)"
  by (simp add: addFilesToZip_def)

lemma contentsOf_empty [simp]: "contentsOf (Dir []) = Map.empty"
  by (simp add: contentsOf_def)

lemma saveSnapshot_eq:
  "saveSnapshot zs s now root tree opts =
     (case addFilesToZip [] tree opts of
        Inl e \<Rightarrow> (Inl e, s\<lparr>dirExists := True\<rparr>)
      | Inr (z, k) \<Rightarrow>
          (Inr \<lparr>id' = ''snapshot_'' @ numToString now, timestamp = now,
                message = SnapshotOptions.message opts, fileCount = k, size' = zs z,
                workspacePath = root\<rparr>,
           s\<lparr>dirExists := True,
             containers := (containers s)(zipName (''snapshot_'' @ numToString now) \<mapsto> z),
             metadataDoc := Some (sortNewestFirst (listSnapshots s @
                [\<lparr>id' = ''snapshot_'' @ numToString now, timestamp = now,
                  message = SnapshotOptions.message opts, fileCount = k, size' = zs z,
                  workspacePath = root\<rparr>]))\<rparr>))"
  by (simp add: saveSnapshot_def Let_def ensureSnapshotsDir_def writeContainer_def
      updateMetadata_def saveMetadata_def listSnapshots_def split: sum.splits prod.splits)


subsection \<open>Default excludes\<close>

lemma defaults_parse:
  "q \<in> set defaultExcludes \<Longrightarrow> \<exists>b. matchesPattern p q = Inr b"
  by (auto simp: defaultExcludes_def matchesPattern_def parseAtom_def syntaxChars_def)

lemma somePattern_hit:
  "\<forall>q\<in>set ps. \<exists>b. matchesPattern p q = Inr b \<Longrightarrow> \<exists>q\<in>set ps. matchesPattern p q = Inr True
   \<Longrightarrow> somePattern p (ps @ qs) = Inr True"
proof (induction ps)
  case Nil
  then show ?case by simp
next
  case (Cons a ps)
  then obtain b where b: "matchesPattern p a = Inr b" by auto
  show ?case
  proof (cases b)
    case True
    with b show ?thesis by simp
  next
    case False
    with b Cons have "somePattern p (ps @ qs) = Inr True" by auto
    with b False show ?thesis by simp
  qed
qed

lemma default_excluded:
  assumes "\<exists>q\<in>set defaultExcludes. matchesPattern p q = Inr True"
  shows "shouldIncludeFile p options = Inr False"
proof -
  have "somePattern p (defaultExcludes @ (case excludePatterns options of None \<Rightarrow> [] | Some ps \<Rightarrow> ps))
        = Inr True"
    using assms defaults_parse by (intro somePattern_hit) blast+
  then show ?thesis by (simp add: shouldIncludeFile_def)
qed

lemma scan_accepts:
  "addDirectory opts rel es st = Inr st' \<Longrightarrow> (q, c) \<in> set (fst st')
   \<Longrightarrow> (q, c) \<in> set (fst st) \<or> shouldIncludeFile q opts = Inr True"
  "shouldIncludeFile rfp opts = Inr True \<Longrightarrow> addEntry opts rfp n st = Inr st'
   \<Longrightarrow> (q, c) \<in> set (fst st') \<Longrightarrow> (q, c) \<in> set (fst st) \<or> shouldIncludeFile q opts = Inr True"
proof (induction opts rel es st and opts rfp n st arbitrary: st' and st'
    rule: addDirectory_addEntry.induct)
  case (1 options relativePath st)
  then show ?case by simp
next
  case (2 options relativePath name n entries st)
  show ?case
  proof (cases "name = ''.snapshots''")
    case True
    with 2 show ?thesis by simp
  next
    case ns: False
    show ?thesis
    proof (cases "shouldIncludeFile (path_join relativePath name) options")
      case (Inl e)
      with ns "2.prems" show ?thesis by simp
    next
      case (Inr b)
      show ?thesis
      proof (cases b)
        case False
        with ns Inr 2 show ?thesis by simp
      next
        case True
        with ns Inr "2.prems" obtain st1 where
          a: "addEntry options (path_join relativePath name) n st = Inr st1" and
          d: "addDirectory options relativePath entries st1 = Inr st'"
          by (auto split: sum.splits)
        from Inr True
        have inc: "shouldIncludeFile (path_join relativePath name) options = Inr True" by simp
        have "(q, c) \<in> set (fst st1) \<or> shouldIncludeFile q options = Inr True"
          using "2.IH"(3) [OF ns inc refl a d "2.prems"(2)] .
        moreover have "(q, c) \<in> set (fst st1)
            \<Longrightarrow> (q, c) \<in> set (fst st) \<or> shouldIncludeFile q options = Inr True"
          using "2.IH"(2) [OF ns inc refl inc a] .
        ultimately show ?thesis by blast
      qed
    qed
  qed
next
  case (5 options relativeFilePath content z fileCount)
  then show ?case by (auto simp: addFile_def)
qed simp_all

lemma capture_accepts:
  assumes "addFilesToZip [] tree opts = Inr (z, count)" and "(p, c) \<in> set z"
  shows "shouldIncludeFile p opts = Inr True"
proof -
  from assms(1) obtain es where "addDirectory opts [] es ([], 0) = Inr (z, count)"
    by (auto simp: addFilesToZip_def split: node.splits)
  from scan_accepts(1) [OF this, of p c] assms(2) show ?thesis by simp
qed

lemma saveSnapshot_Inr:
  assumes "saveSnapshot zs s now root tree opts = (Inr m, s')"
  shows "\<exists>z k. addFilesToZip [] tree opts = Inr (z, k)
          \<and> containers s' (zipName (id' m)) = Some z
          \<and> id' m = ''snapshot_'' @ numToString now \<and> timestamp m = now \<and> fileCount m = k
          \<and> id' m \<in> set (map id' (listSnapshots s'))"
  using assms
  by (auto simp: saveSnapshot_eq listSnapshots_def sortNewestFirst_def split: sum.splits prod.splits)

text \<open>
  Claim C4. A relative path that matches at least one default exclude pattern is rejected
  by \<^verbatim>\<open>shouldIncludeFile\<close> whatever the options are (the default patterns are tried
  first, before any user pattern), and it is the name of no entry of a container that
  \<^verbatim>\<open>saveSnapshot\<close> writes.
\<close>

theorem default_excludes_apply:
  assumes "\<exists>q\<in>set defaultExcludes. matchesPattern p q = Inr True"
  shows "shouldIncludeFile p options = Inr False
       \<and> (\<forall>zipSize s now root tree m s'.
            saveSnapshot zipSize s now root tree options = (Inr m, s')
            \<longrightarrow> (\<exists>z. containers s' (zipName (id' m)) = Some z \<and> p \<notin> fst ` set z))"
proof (intro conjI allI impI)
  show ex: "shouldIncludeFile p options = Inr False"
    using assms by (rule default_excluded)
  fix zipSize s now root tree m s'
  assume "saveSnapshot zipSize s now root tree options = (Inr m, s')"
  then obtain z k where z: "addFilesToZip [] tree options = Inr (z, k)"
    "containers s' (zipName (id' m)) = Some z"
    using saveSnapshot_Inr by blast
  have "p \<notin> fst ` set z"
  proof
    assume "p \<in> fst ` set z"
    then obtain c where "(p, c) \<in> set z" by auto
    with z(1) have "shouldIncludeFile p options = Inr True" by (rule capture_accepts)
    with ex show False by simp
  qed
  with z(2) show "\<exists>z. containers s' (zipName (id' m)) = Some z \<and> p \<notin> fst ` set z" by blast
qed

lemma example_capture_all:
  "addFilesToZip [] exampleTree includeAll = Inr ([(''src/a.ts'', [1]), (''b.ts'', [2])], 2)"
  by (simp add: addFilesToZip_def exampleTree_def includeAll_def noOptions_def
      shouldIncludeFile_def defaultExcludes_def matchesPattern_def parseAtom_def
      syntaxChars_def isLineTerminator_def path_join_def addFile_def)

theorem default_excludes_apply_witness:
  "matchesPattern ''.git/config'' ''.git'' = Inr True
   \<and> matchesPattern ''.git/config'' ''*'' = Inr True
   \<and> shouldIncludeFile ''.git/config'' includeAll = Inr False
   \<and> fst (saveSnapshot length emptyStorage 1000 ''/w'' exampleTree includeAll)
       = Inr \<lparr>id' = ''snapshot_1000'', timestamp = 1000, message = None, fileCount = 2,
              size' = 2, workspacePath = ''/w''\<rparr>
   \<and> containers (snd (saveSnapshot length emptyStorage 1000 ''/w'' exampleTree includeAll))
        ''snapshot_1000.zip'' = Some [(''src/a.ts'', [1]), (''b.ts'', [2])]"
proof -
  have m: "matchesPattern ''.git/config'' ''.git'' = Inr True"
    by (simp add: matchesPattern_def parseAtom_def syntaxChars_def isLineTerminator_def)
  have m2: "matchesPattern ''.git/config'' ''*'' = Inr True"
    by (simp add: matchesPattern_def parseAtom_def syntaxChars_def isLineTerminator_def)
  have h: "\<exists>q\<in>set defaultExcludes. matchesPattern ''.git/config'' q = Inr True"
    using m by (simp add: defaultExcludes_def)
  have n: "numToString 1000 = ''1000''" by code_simp
  have msg: "SnapshotOptions.message includeAll = None"
    by (simp add: includeAll_def noOptions_def)
  have sv: "saveSnapshot length emptyStorage 1000 ''/w'' exampleTree includeAll
     = (Inr \<lparr>id' = ''snapshot_1000'', timestamp = 1000, message = None, fileCount = 2,
              size' = 2, workspacePath = ''/w''\<rparr>,
        \<lparr>dirExists = True,
          containers = [''snapshot_1000.zip'' \<mapsto> [(''src/a.ts'', [1]), (''b.ts'', [2])]],
          metadataDoc = Some [\<lparr>id' = ''snapshot_1000'', timestamp = 1000, message = None,
              fileCount = 2, size' = 2, workspacePath = ''/w''\<rparr>]\<rparr>)"
    by (simp add: saveSnapshot_eq example_capture_all n msg emptyStorage_def zipName_def
        listSnapshots_def sortNewestFirst_def)
  from default_excludes_apply [OF h, of includeAll] m m2 sv show ?thesis by simp
qed

subsection \<open>Pruning and the round trip\<close>

lemma include_unmatched:
  assumes "includePatterns options = Some ps" and "ps \<noteq> []"
    and "somePattern p ps = Inr False"
  shows "shouldIncludeFile p options \<noteq> Inr True"
  using assms by (auto simp: shouldIncludeFile_def split: sum.splits bool.splits)

text \<open>
  Claim C10. When include patterns are supplied and not empty, a directory whose relative
  path matches none of them is pruned whole: no file inside it, at any depth, is an entry
  of the container that \<^verbatim>\<open>saveSnapshot\<close> writes, whatever the file's own relative
  path matches.
\<close>

theorem unmatched_directory_pruned:
  assumes wf: "wf_node tree"
    and inc: "includePatterns options = Some ps" "ps \<noteq> []"
    and dir: "lookup (entriesOf tree) dirNames = Some (Dir sub)"
    and nomatch: "somePattern (joinPath dirNames) ps = Inr False"
    and fl: "lookup (entriesOf tree) (dirNames @ below) = Some (File content)"
    and save: "saveSnapshot zipSize s now root tree options = (Inr m, s')"
  shows "\<exists>z. containers s' (zipName (id' m)) = Some z \<and> joinPath (dirNames @ below) \<notin> fst ` set z"
proof -
  from save obtain z k where z: "addFilesToZip [] tree options = Inr (z, k)"
    "containers s' (zipName (id' m)) = Some z"
    using saveSnapshot_Inr by blast
  from capture_iff(3) [OF wf z(1)] obtain es where t: "tree = Dir es" by blast
  with wf have wfe: "wf_entries (entriesOf tree)" by (simp add: entriesOf_def)
  from dir fl have below: "below \<noteq> []" by auto
  from dir have dn: "dirNames \<noteq> []" by auto
  have "joinPath (dirNames @ below) \<notin> fst ` set z"
  proof
    assume "joinPath (dirNames @ below) \<in> fst ` set z"
    then obtain c where "(joinPath (dirNames @ below), c) \<in> set z" by auto
    with capture_iff(1) [OF wf z(1)]
    have "reached options [] (entriesOf tree) (joinPath (dirNames @ below)) c" by simp
    then obtain names where n: "joinPath (dirNames @ below) = joinPath names"
      "\<forall>k. 0 < k \<and> k \<le> length names
          \<longrightarrow> shouldIncludeFile (joinPath (take k names)) options = Inr True"
      "list_all wf_name names"
      unfolding reached_def joinPath_def by blast
    from wfe fl have "list_all wf_name (dirNames @ below)" by (rule lookup_wf_names)
    with n(1,3) have "names = dirNames @ below" by (intro joinPath_inj) simp_all
    with n(2) [rule_format, of "length dirNames"] dn
    have "shouldIncludeFile (joinPath dirNames) options = Inr True" by simp
    with include_unmatched [OF inc nomatch] show False by simp
  qed
  with z(2) show ?thesis by blast
qed



lemma numToString_1000: "numToString 1000 = ''1000''"
  by code_simp


lemma example_capture_ts:
  "addFilesToZip [] exampleTree tsOnly = Inr ([(''b.ts'', [2])], 1)"
  by (simp add: addFilesToZip_def exampleTree_def tsOnly_def noOptions_def
      shouldIncludeFile_def defaultExcludes_def matchesPattern_def parseAtom_def
      syntaxChars_def isLineTerminator_def path_join_def addFile_def)

lemma example_capture_default:
  "addFilesToZip [] exampleTree noOptions = Inr ([(''src/a.ts'', [1]), (''b.ts'', [2])], 2)"
  by (simp add: addFilesToZip_def exampleTree_def noOptions_def
      shouldIncludeFile_def defaultExcludes_def matchesPattern_def parseAtom_def
      syntaxChars_def isLineTerminator_def path_join_def addFile_def)

lemma snaps_capture:
  "addFilesToZip [] snapsTree noOptions =
     Inr ([(''snaps/snapshot_1000.zip'', [80, 75]), (''snaps/metadata.json'', [91, 93]),
           (''a.txt'', [1])], 3)"
  by (simp add: addFilesToZip_def snapsTree_def noOptions_def
      shouldIncludeFile_def defaultExcludes_def matchesPattern_def parseAtom_def
      syntaxChars_def isLineTerminator_def path_join_def addFile_def)

lemma wf_exampleTree: "wf_node exampleTree"
  by (simp add: exampleTree_def wf_name_def)



theorem unmatched_directory_pruned_witness:
  "wf_node exampleTree
   \<and> lookup (entriesOf exampleTree) [''src''] = Some (Dir [(''a.ts'', File [1])])
   \<and> somePattern (joinPath [''src'']) [''*.ts''] = Inr False
   \<and> lookup (entriesOf exampleTree) ([''src''] @ [''a.ts'']) = Some (File [1])
   \<and> matchesPattern (joinPath ([''src''] @ [''a.ts''])) ''*.ts'' = Inr True
   \<and> containers (snd (saveSnapshot length emptyStorage 1000 ''/w'' exampleTree tsOnly))
        ''snapshot_1000.zip'' = Some [(''b.ts'', [2])]"
proof -
  have inc: "includePatterns tsOnly = Some [''*.ts'']" "[''*.ts''] \<noteq> []"
    by (simp_all add: tsOnly_def noOptions_def)
  have dir: "lookup (entriesOf exampleTree) [''src''] = Some (Dir [(''a.ts'', File [1])])"
    by (simp add: exampleTree_def entriesOf_def)
  have nomatch: "somePattern (joinPath [''src'']) [''*.ts''] = Inr False"
    by (simp add: joinPath_def path_join_def matchesPattern_def parseAtom_def syntaxChars_def
        isLineTerminator_def)
  have fl: "lookup (entriesOf exampleTree) ([''src''] @ [''a.ts'']) = Some (File [1])"
    by (simp add: exampleTree_def entriesOf_def)
  have own: "matchesPattern (joinPath ([''src''] @ [''a.ts''])) ''*.ts'' = Inr True"
    by (simp add: joinPath_def path_join_def matchesPattern_def parseAtom_def syntaxChars_def
        isLineTerminator_def)
  have msg: "SnapshotOptions.message tsOnly = None"
    by (simp add: tsOnly_def noOptions_def)
  have sv: "saveSnapshot length emptyStorage 1000 ''/w'' exampleTree tsOnly
     = (Inr \<lparr>id' = ''snapshot_1000'', timestamp = 1000, message = None, fileCount = 1,
              size' = 1, workspacePath = ''/w''\<rparr>,
        \<lparr>dirExists = True,
          containers = [''snapshot_1000.zip'' \<mapsto> [(''b.ts'', [2])]],
          metadataDoc = Some [\<lparr>id' = ''snapshot_1000'', timestamp = 1000, message = None,
              fileCount = 1, size' = 1, workspacePath = ''/w''\<rparr>]\<rparr>)"
    by (simp add: saveSnapshot_eq example_capture_ts numToString_1000 msg emptyStorage_def
        zipName_def listSnapshots_def sortNewestFirst_def)
  from unmatched_directory_pruned [OF wf_exampleTree inc dir nomatch fl sv]
    wf_exampleTree dir nomatch fl own sv
  show ?thesis by simp
qed

subsection \<open>Restore of a missing container, identifiers, and the storage directory\<close>






lemma count_sorted:
  "length (filter P (sortNewestFirst xs)) = length (filter P xs)"
  by (simp add: sortNewestFirst_def filter_sort)

text \<open>
  Claim C7 does not hold of the code. The identifier is \<^verbatim>\<open>snapshot_\<close> followed by the
  clock value and nothing else: two successful \<^verbatim>\<open>saveSnapshot\<close> calls that read the
  same clock value return the same identifier, the second container replaces the first
  under the same file name, and the index holds two records with that identifier.
\<close>

theorem same_clock_same_id:
  assumes "saveSnapshot zipSize s now root tree options = (Inr m, s')"
    and "saveSnapshot zipSize' s' now root' tree' options' = (Inr m', s'')"
  shows "id' m' = id' m
       \<and> (\<exists>z k. addFilesToZip [] tree' options' = Inr (z, k)
                 \<and> containers s'' (zipName (id' m)) = Some z)
       \<and> 2 \<le> length (filter (\<lambda>x. id' x = id' m) (listSnapshots s''))"
proof -
  from saveSnapshot_Inr [OF assms(1)]
  have m: "id' m = ''snapshot_'' @ numToString now" "id' m \<in> set (map id' (listSnapshots s'))"
    by auto
  from saveSnapshot_Inr [OF assms(2)] obtain z k where
    z: "addFilesToZip [] tree' options' = Inr (z, k)" "containers s'' (zipName (id' m')) = Some z"
    and m': "id' m' = ''snapshot_'' @ numToString now" by auto
  from m m' have eq: "id' m' = id' m" by simp
  from assms(2) z(1) have l: "listSnapshots s'' = sortNewestFirst (listSnapshots s' @ [m'])"
    by (auto simp: saveSnapshot_eq listSnapshots_def)
  from m(2) have "filter (\<lambda>x. id' x = id' m) (listSnapshots s') \<noteq> []"
    by (auto simp: filter_empty_conv)
  then have "1 \<le> length (filter (\<lambda>x. id' x = id' m) (listSnapshots s'))"
    by (cases "filter (\<lambda>x. id' x = id' m) (listSnapshots s')") simp_all
  with eq l have "2 \<le> length (filter (\<lambda>x. id' x = id' m) (listSnapshots s''))"
    by (simp add: count_sorted)
  with eq z show ?thesis by auto
qed

lemma capture_complete:
  assumes "addFilesToZip [] tree opts = Inr (z, count)"
    and "reached opts [] (entriesOf tree) p c"
  shows "(p, c) \<in> set z"
proof -
  from assms(1) obtain es where t: "tree = Dir es"
    and d: "addDirectory opts [] es ([], 0) = Inr (z, count)"
    by (auto simp: addFilesToZip_def split: node.splits)
  from scan_complete(1) [OF d, of p c] assms(2) t show ?thesis
    by (simp add: entriesOf_def)
qed

text \<open>
  Claim C8 does not hold of the code. The scan skips the name \<^verbatim>\<open>.snapshots\<close>, not the
  configured storage directory: when the storage directory has another name
  \<open>snapshotsPath\<close> that the filter accepts, a file inside it (an earlier container, the
  index document) whose relative path the filter accepts is an entry of the container that
  \<^verbatim>\<open>saveSnapshot\<close> writes.
\<close>

theorem configured_storage_directory_captured:
  assumes "lookup (entriesOf tree) [snapshotsPath, fileName] = Some (File content)"
    and "wf_name snapshotsPath" and "wf_name fileName"
    and "snapshotsPath \<noteq> ''.snapshots''" and "fileName \<noteq> ''.snapshots''"
    and "shouldIncludeFile snapshotsPath options = Inr True"
    and "shouldIncludeFile (path_join snapshotsPath fileName) options = Inr True"
    and "saveSnapshot zipSize s now root tree options = (Inr m, s')"
  shows "\<exists>z. containers s' (zipName (id' m)) = Some z
            \<and> (path_join snapshotsPath fileName, content) \<in> set z"
proof -
  from saveSnapshot_Inr [OF assms(8)] obtain z k where
    z: "addFilesToZip [] tree options = Inr (z, k)" "containers s' (zipName (id' m)) = Some z"
    by auto
  from assms(2) have ne: "snapshotsPath \<noteq> []" by (simp add: wf_name_def)
  have ch: "shouldIncludeFile (foldl path_join [] (take k [snapshotsPath, fileName])) options
      = Inr True" if "0 < k \<and> k \<le> length [snapshotsPath, fileName]" for k
  proof -
    from that have "k = 1 \<or> k = 2" by auto
    with assms(6,7) ne show ?thesis by (auto simp: path_join_def)
  qed
  have "reached options [] (entriesOf tree) (path_join snapshotsPath fileName) content"
    unfolding reached_def
    using assms(1-5) ch ne
    by (intro exI [of _ "[snapshotsPath, fileName]"]) (simp add: path_join_def)
  with z(1) have "(path_join snapshotsPath fileName, content) \<in> set z"
    by (rule capture_complete)
  with z(2) show ?thesis by blast
qed


lemma message_noOptions: "SnapshotOptions.message noOptions = None"
  by (simp add: noOptions_def)

lemma first_save:
  "saveSnapshot length emptyStorage 1000 ''/w'' exampleTree noOptions = (Inr firstRecord, afterFirst)"
  by (simp add: saveSnapshot_eq example_capture_default numToString_1000 message_noOptions
      emptyStorage_def zipName_def listSnapshots_def sortNewestFirst_def firstRecord_def
      afterFirst_def)

lemma second_save:
  "saveSnapshot length afterFirst 1000 ''/w'' snapsTree noOptions = (Inr secondRecord, afterSecond)"
  by (simp add: saveSnapshot_eq snaps_capture numToString_1000 message_noOptions
      zipName_def listSnapshots_def sortNewestFirst_def firstRecord_def secondRecord_def
      afterFirst_def afterSecond_def)

theorem same_clock_same_id_witness:
  "saveSnapshot length emptyStorage 1000 ''/w'' exampleTree noOptions = (Inr firstRecord, afterFirst)
   \<and> saveSnapshot length afterFirst 1000 ''/w'' snapsTree noOptions = (Inr secondRecord, afterSecond)
   \<and> id' secondRecord = id' firstRecord
   \<and> containers afterFirst (zipName (id' firstRecord)) = Some [(''src/a.ts'', [1]), (''b.ts'', [2])]
   \<and> containers afterSecond (zipName (id' firstRecord))
       = Some [(''snaps/snapshot_1000.zip'', [80, 75]), (''snaps/metadata.json'', [91, 93]),
               (''a.txt'', [1])]
   \<and> map id' (listSnapshots afterSecond) = [''snapshot_1000'', ''snapshot_1000'']"
proof -
  have "containers afterFirst (zipName (id' firstRecord))
          = Some [(''src/a.ts'', [1]), (''b.ts'', [2])]"
    by (simp add: afterFirst_def firstRecord_def zipName_def)
  moreover have "containers afterSecond (zipName (id' firstRecord))
       = Some [(''snaps/snapshot_1000.zip'', [80, 75]), (''snaps/metadata.json'', [91, 93]),
               (''a.txt'', [1])]"
    by (simp add: afterSecond_def firstRecord_def zipName_def)
  moreover have "map id' (listSnapshots afterSecond) = [''snapshot_1000'', ''snapshot_1000'']"
    by (simp add: afterSecond_def listSnapshots_def firstRecord_def secondRecord_def)
  ultimately show ?thesis
    using same_clock_same_id [OF first_save second_save] first_save second_save by simp
qed

theorem configured_storage_directory_captured_witness:
  "lookup (entriesOf snapsTree) [''snaps'', ''snapshot_1000.zip''] = Some (File [80, 75])
   \<and> shouldIncludeFile ''snaps'' noOptions = Inr True
   \<and> shouldIncludeFile (path_join ''snaps'' ''snapshot_1000.zip'') noOptions = Inr True
   \<and> (path_join ''snaps'' ''snapshot_1000.zip'', [80, 75])
        \<in> set (the (containers afterSecond (zipName (id' secondRecord))))"
proof -
  have l: "lookup (entriesOf snapsTree) [''snaps'', ''snapshot_1000.zip''] = Some (File [80, 75])"
    by (simp add: snapsTree_def entriesOf_def)
  have w: "wf_name ''snaps''" "wf_name ''snapshot_1000.zip''"
    by (simp_all add: wf_name_def)
  have n: "''snaps'' \<noteq> ''.snapshots''" "''snapshot_1000.zip'' \<noteq> ''.snapshots''"
    by simp_all
  have a: "shouldIncludeFile ''snaps'' noOptions = Inr True"
    by (simp add: noOptions_def shouldIncludeFile_def defaultExcludes_def
        matchesPattern_def parseAtom_def syntaxChars_def isLineTerminator_def)
  have b: "shouldIncludeFile (path_join ''snaps'' ''snapshot_1000.zip'') noOptions = Inr True"
    by (simp add: noOptions_def shouldIncludeFile_def defaultExcludes_def path_join_def
        matchesPattern_def parseAtom_def syntaxChars_def isLineTerminator_def)
  from configured_storage_directory_captured [OF l w n a b second_save] l a b
  show ?thesis by auto
qed

end
